theory Spec2Isabelle
  imports Complex_Main "HOL-Library.Sublist"
begin

section \<open>The upload-and-convert workflow of \<open>frontend/app/page.tsx\<close>\<close>

text \<open>
  The component \<open>Home\<close> keeps five pieces of React state and registers a handful of
  event handlers. The embedding below follows the handlers line by line. The browser and
  React are modelled as far as the handlers use them: a clock (\<open>Date.now()\<close>), the table
  of active interval timers, the table of pending timeouts, the pending \<open>fetch\<close>
  promises, the store of object URLs, and the trace of calls that leave the component
  (\<open>alert\<close>, \<open>console.error\<close>, the POST, the click on the download link).

  JavaScript runs every handler and every continuation of an \<open>async\<close> function to
  its next \<open>await\<close> without interruption, so each of them is one atomic step of the
  model, and the state setters of React take effect in the order of their calls. A
  JavaScript number is modelled as a \<open>real\<close>, a timestamp in milliseconds as an
  \<open>int\<close>. The clock only moves forward, and \<open>Date.now()\<close> and the timers read the
  same clock. The period of the interval (200 ms) is not modelled: an active interval
  may tick at any time, which only adds runs.

  A handler closes over the state of the render that created it. The handlers that read
  state, \<open>handleStartProcess\<close> and \<open>handleDownload\<close>, therefore take the value they
  captured as an argument, and the event loop says which value a button on the page
  holds (see the subsection on rendering).
\<close>

subsection \<open>Data\<close>

text \<open>A \<open>File\<close> as far as the handlers read it: \<open>file.name\<close> and \<open>file.type\<close>.\<close>

record File =
  name :: string
  type :: string

type_synonym blob = string

text \<open>
  An object URL. \<open>URL.createObjectURL\<close> returns a fresh string each time; the model
  numbers them in the order of creation.
\<close>

type_synonym url = nat

text \<open>The five \<open>useState\<close> cells of \<open>Home\<close> (lines 126-130).\<close>

record home =
  selectedFile :: "File option"
  isProcessing :: bool
  processingProgress :: real
  processingComplete :: bool
  pdfUrl :: "url option"

text \<open>What an awaited promise yields: it is rejected with a message, or resolved.\<close>

datatype 'a settled = Rejected string | Resolved 'a

text \<open>
  A \<open>Response\<close>: its HTTP status, and what reading its body (\<open>response.text()\<close>,
  \<open>response.blob()\<close>) yields. \<open>response.ok\<close> is true exactly for a status in
  200..299.
\<close>

record response =
  status :: nat
  body :: "string settled"

definition ok :: "response \<Rightarrow> bool" where
  "ok r = (200 \<le> status r \<and> status r \<le> 299)"

text \<open>
  The callbacks handed to \<open>setTimeout\<close> in \<open>handleStartProcess\<close>: the \<open>resolve\<close>
  of the padding promise (line 175), after which the function continues at line 178 with
  its \<open>interval\<close> and \<open>blob\<close>, and the arrow function of lines 183-186.
\<close>

datatype callback = AfterFloor nat blob | Finish

text \<open>The calls that leave the component, in the order they are made.\<close>

datatype effect =
    Post File
  | ConsoleError string
  | Alert string
  | SaveAs string url

record world =
  ui :: home
  now :: int
  nextId :: nat
  intervals :: "nat list"
  timeouts :: "(nat \<times> int \<times> callback) list"
  requests :: "(nat \<times> int \<times> nat) list"
  objectURLs :: "(url \<times> blob) list"
  effects :: "effect list"
  exitingStart :: "File option"
  exitingResult :: "url option option"

text \<open>
  \<open>requests\<close> holds, for each \<open>fetch\<close> that has not settled, the suspended
  \<open>handleStartProcess\<close> with its local constants \<open>startTime\<close> and \<open>interval\<close>.
  \<open>exitingStart\<close> and \<open>exitingResult\<close> describe the panels that are playing their
  exit animation (see the subsection on rendering).
\<close>

definition initial :: "int \<Rightarrow> world" where
  "initial t =
     \<lparr>ui = \<lparr>selectedFile = None, isProcessing = False, processingProgress = 0,
            processingComplete = False, pdfUrl = None\<rparr>,
      now = t, nextId = 0, intervals = [], timeouts = [], requests = [],
      objectURLs = [], effects = [], exitingStart = None, exitingResult = None\<rparr>"

subsection \<open>React state setters and browser primitives\<close>

definition setSelectedFile :: "File option \<Rightarrow> world \<Rightarrow> world" where
  "setSelectedFile f w = w\<lparr>ui := (ui w)\<lparr>selectedFile := f\<rparr>\<rparr>"

definition setIsProcessing :: "bool \<Rightarrow> world \<Rightarrow> world" where
  "setIsProcessing b w = w\<lparr>ui := (ui w)\<lparr>isProcessing := b\<rparr>\<rparr>"

definition setProcessingProgress :: "real \<Rightarrow> world \<Rightarrow> world" where
  "setProcessingProgress p w = w\<lparr>ui := (ui w)\<lparr>processingProgress := p\<rparr>\<rparr>"

definition setProcessingComplete :: "bool \<Rightarrow> world \<Rightarrow> world" where
  "setProcessingComplete b w = w\<lparr>ui := (ui w)\<lparr>processingComplete := b\<rparr>\<rparr>"

definition setPdfUrl :: "url option \<Rightarrow> world \<Rightarrow> world" where
  "setPdfUrl u w = w\<lparr>ui := (ui w)\<lparr>pdfUrl := u\<rparr>\<rparr>"

definition setInterval :: "world \<Rightarrow> nat \<times> world" where
  "setInterval w =
     (nextId w, w\<lparr>nextId := Suc (nextId w), intervals := intervals w @ [nextId w]\<rparr>)"

definition clearInterval :: "nat \<Rightarrow> world \<Rightarrow> world" where
  "clearInterval i w = w\<lparr>intervals := removeAll i (intervals w)\<rparr>"

definition setTimeout :: "callback \<Rightarrow> int \<Rightarrow> world \<Rightarrow> world" where
  "setTimeout cb delay w =
     w\<lparr>nextId := Suc (nextId w),
       timeouts := timeouts w @ [(nextId w, now w + delay, cb)]\<rparr>"

definition fetch :: "File \<Rightarrow> int \<Rightarrow> nat \<Rightarrow> world \<Rightarrow> world" where
  "fetch f startTime interval w =
     w\<lparr>nextId := Suc (nextId w),
       requests := requests w @ [(nextId w, startTime, interval)],
       effects := effects w @ [Post f]\<rparr>"

definition createObjectURL :: "blob \<Rightarrow> world \<Rightarrow> url \<times> world" where
  "createObjectURL b w =
     (length (objectURLs w), w\<lparr>objectURLs := objectURLs w @ [(length (objectURLs w), b)]\<rparr>)"

definition emit :: "effect \<Rightarrow> world \<Rightarrow> world" where
  "emit e w = w\<lparr>effects := effects w @ [e]\<rparr>"

text \<open>\<open>String.prototype.endsWith\<close>.\<close>

definition endsWith :: "string \<Rightarrow> string \<Rightarrow> bool" where
  "endsWith s t = (length t \<le> length s \<and> drop (length s - length t) s = t)"

subsection \<open>The handlers\<close>

text \<open>Lines 132-139. The argument is \<open>event.target.files?.[0]\<close>.\<close>

definition handleFileChange :: "File option \<Rightarrow> world \<Rightarrow> world" where
  "handleFileChange candidate w =
     (case candidate of
        None \<Rightarrow> w
      | Some f \<Rightarrow>
          (let w1 = setSelectedFile (Some f) w;
               w2 = setProcessingComplete False w1;
               w3 = setPdfUrl None w2
           in w3))"

text \<open>Lines 213-220. The argument is \<open>e.dataTransfer.files?.[0]\<close>.\<close>

definition dropAccepts :: "File \<Rightarrow> bool" where
  "dropAccepts f =
     (type f = ''audio/mpeg'' \<or> type f = ''audio/wav'' \<or> type f = ''audio/ogg'' \<or>
      endsWith (name f) ''.mp3'' \<or> endsWith (name f) ''.wav'')"

definition handleDrop :: "File option \<Rightarrow> world \<Rightarrow> world" where
  "handleDrop candidate w =
     (case candidate of
        None \<Rightarrow> w
      | Some f \<Rightarrow>
          if dropAccepts f then
            (let w1 = setSelectedFile (Some f) w;
                 w2 = setProcessingComplete False w1
             in w2)
          else w)"

text \<open>
  Lines 141-162: \<open>handleStartProcess\<close> up to its first \<open>await\<close>. The callback is
  memoized on \<open>selectedFile\<close> (line 194): the \<open>selectedFile\<close> it tests and posts is
  the one of the render that created it, here the argument \<open>captured\<close>. The interval
  callback of lines 148-153 is \<open>tick\<close> below.
\<close>

definition handleStartProcess :: "File option \<Rightarrow> world \<Rightarrow> world" where
  "handleStartProcess captured w =
     (case captured of
        None \<Rightarrow> w
      | Some f \<Rightarrow>
          (let w1 = setIsProcessing True w;
               w2 = setProcessingProgress 0 w1;
               startTime = now w2;
               (interval, w3) = setInterval w2;
               w4 = fetch f startTime interval w3
           in w4))"

text \<open>Lines 149-152: the state updater of the interval, with \<open>r\<close> for \<open>Math.random()\<close>.\<close>

definition updater :: "real \<Rightarrow> real \<Rightarrow> real" where
  "updater r prev = (if prev \<ge> 90 then prev else prev + r * 1.5)"

definition tick :: "real \<Rightarrow> world \<Rightarrow> world" where
  "tick r w = setProcessingProgress (updater r (processingProgress (ui w))) w"

definition minTime :: int where
  "minTime = 20000"

text \<open>Lines 178-186: the success path once the floor has passed.\<close>

definition succeed :: "nat \<Rightarrow> blob \<Rightarrow> world \<Rightarrow> world" where
  "succeed interval b w =
     (let (u, w1) = createObjectURL b w;
          w2 = setPdfUrl (Some u) w1;
          w3 = clearInterval interval w2;
          w4 = setProcessingProgress 100 w3;
          w5 = setTimeout Finish 500 w4
      in w5)"

text \<open>Lines 187-193: the \<open>catch\<close> block.\<close>

definition catch :: "nat \<Rightarrow> string \<Rightarrow> world \<Rightarrow> world" where
  "catch interval error w =
     (let w1 = emit (ConsoleError error) w;
          w2 = emit (Alert ''Error processing file. Please check backend connection.'') w1;
          w3 = clearInterval interval w2;
          w4 = setIsProcessing False w3;
          w5 = setProcessingProgress 0 w4
      in w5)"

text \<open>
  Lines 159-176: \<open>handleStartProcess\<close> from the settling of \<open>fetch\<close> on. Between the
  \<open>await fetch\<close> and the \<open>await response.text()\<close> or \<open>await response.blob()\<close> the
  function changes nothing, so both are taken in one step, at the time the body has
  been read.
\<close>

definition resume :: "int \<Rightarrow> nat \<Rightarrow> response settled \<Rightarrow> world \<Rightarrow> world" where
  "resume startTime interval result w =
     (case result of
        Rejected error \<Rightarrow> catch interval error w
      | Resolved r \<Rightarrow>
          if \<not> ok r then
            (case body r of
               Rejected error \<Rightarrow> catch interval error w
             | Resolved errorText \<Rightarrow> catch interval (''Processing failed: '' @ errorText) w)
          else
            (case body r of
               Rejected error \<Rightarrow> catch interval error w
             | Resolved b \<Rightarrow>
                 (let elapsedTime = now w - startTime in
                  if elapsedTime < minTime
                  then setTimeout (AfterFloor interval b) (minTime - elapsedTime) w
                  else succeed interval b w)))"

text \<open>Lines 183-186 (the callback) and the resumption after line 175.\<close>

definition finish :: "world \<Rightarrow> world" where
  "finish w = setProcessingComplete True (setIsProcessing False w)"

fun invoke :: "callback \<Rightarrow> world \<Rightarrow> world" where
  "invoke (AfterFloor interval b) w = succeed interval b w"
| "invoke Finish w = finish w"

text \<open>
  Lines 196-207. The function is created anew in every render and reads the \<open>pdfUrl\<close>
  of that render, here the argument \<open>captured\<close>.
\<close>

definition handleDownload :: "url option \<Rightarrow> world \<Rightarrow> world" where
  "handleDownload captured w =
     (case captured of
        Some u \<Rightarrow> emit (SaveAs ''sheet_music.pdf'' u) w
      | None \<Rightarrow> emit (Alert ''Download not ready'') w)"

text \<open>Line 349 (the remove button) and lines 432-436 (the button New Conversion).\<close>

definition removeFile :: "world \<Rightarrow> world" where
  "removeFile w = setSelectedFile None w"

definition newConversion :: "world \<Rightarrow> world" where
  "newConversion w =
     (let w1 = setSelectedFile None w;
          w2 = setProcessingComplete False w1;
          w3 = setPdfUrl None w2
      in w3)"

subsection \<open>Rendering\<close>

text \<open>
  The start button is rendered only while a file is selected and neither
  \<open>isProcessing\<close> nor \<open>processingComplete\<close> holds (lines 309 and 357), the remove
  button only while a file is selected (line 309), the download and new-conversion
  buttons only while \<open>processingComplete\<close> holds (line 403). The file input and the drop
  zone are always there.
\<close>

definition canStart :: "home \<Rightarrow> bool" where
  "canStart h = (selectedFile h \<noteq> None \<and> \<not> isProcessing h \<and> \<not> processingComplete h)"

text \<open>
  The panel of the selected file (lines 333-368) and the result panel (lines 404-445)
  stand inside \<open>AnimatePresence\<close>. When the condition of such a panel turns false, the
  panel is not taken off the page at once: it plays its exit animation, and until that
  ends it stays as its last render left it, with the buttons of that render and their
  handlers. When the condition turns true again, the panel is rendered afresh.

  \<open>exitingStart\<close> is the file captured by the start button of an exiting file panel,
  if that panel had the button; \<open>exitingResult\<close> is the \<open>pdfUrl\<close> captured by the
  download button of an exiting result panel. \<open>commit\<close> is the render that follows a
  step, from the React state before the step.
\<close>

definition commit :: "home \<Rightarrow> world \<Rightarrow> world" where
  "commit before w =
     w\<lparr>exitingStart :=
         (if selectedFile (ui w) \<noteq> None then None
          else if selectedFile before \<noteq> None
            then (if canStart before then selectedFile before else None)
          else exitingStart w),
       exitingResult :=
         (if processingComplete (ui w) then None
          else if processingComplete before then Some (pdfUrl before)
          else exitingResult w)\<rparr>"

text \<open>
  The buttons on the page and what their handlers captured. A rendered panel holds the
  values of the current render; an exiting panel holds those of its last render.
\<close>

definition startButton :: "world \<Rightarrow> File option" where
  "startButton w = (if canStart (ui w) then selectedFile (ui w) else exitingStart w)"

definition downloadButton :: "world \<Rightarrow> url option option" where
  "downloadButton w =
     (if processingComplete (ui w) then Some (pdfUrl (ui w)) else exitingResult w)"

definition newConversionButton :: "world \<Rightarrow> bool" where
  "newConversionButton w = (processingComplete (ui w) \<or> exitingResult w \<noteq> None)"

subsection \<open>The event loop\<close>

text \<open>
  What can happen next. A timeout fires no earlier than it is due; an interval may fire
  whenever it is active, with any \<open>Math.random()\<close> in [0, 1). The exit animation of a
  panel may end at any time.

  The model follows one click on the start button of an exiting panel: the click takes
  the button out of the model. A further click on the same exiting button, while the
  conversion that the first click started is under way, is outside the model. The remove
  button of an exiting file panel sets \<open>selectedFile\<close> to null once more, which changes
  nothing; the model has no event for it.
\<close>

datatype event =
    FileChange "File option"
  | Drop "File option"
  | ClickStart
  | ClickRemove
  | ClickDownload
  | ClickNewConversion
  | Advance nat
  | Tick nat real
  | Settle nat "response settled"
  | Fire nat
  | FilePanelExited
  | ResultPanelExited

definition remove_key :: "nat \<Rightarrow> (nat \<times> 'a) list \<Rightarrow> (nat \<times> 'a) list" where
  "remove_key k xs = filter (\<lambda>e. fst e \<noteq> k) xs"

text \<open>What the handler of an event does.\<close>

fun act :: "event \<Rightarrow> world \<Rightarrow> world option" where
  "act (FileChange candidate) w = Some (handleFileChange candidate w)"
| "act (Drop candidate) w = Some (handleDrop candidate w)"
| "act ClickStart w =
     (case startButton w of
        None \<Rightarrow> None
      | Some f \<Rightarrow> Some (handleStartProcess (Some f) (w\<lparr>exitingStart := None\<rparr>)))"
| "act ClickRemove w =
     (if selectedFile (ui w) \<noteq> None then Some (removeFile w) else None)"
| "act ClickDownload w =
     (case downloadButton w of
        None \<Rightarrow> None
      | Some captured \<Rightarrow> Some (handleDownload captured w))"
| "act ClickNewConversion w =
     (if newConversionButton w then Some (newConversion w) else None)"
| "act (Advance d) w = Some (w\<lparr>now := now w + int d\<rparr>)"
| "act (Tick i r) w =
     (if i \<in> set (intervals w) \<and> 0 \<le> r \<and> r < 1 then Some (tick r w) else None)"
| "act (Settle k result) w =
     (case map_of (requests w) k of
        None \<Rightarrow> None
      | Some (startTime, interval) \<Rightarrow>
          Some (resume startTime interval result (w\<lparr>requests := remove_key k (requests w)\<rparr>)))"
| "act (Fire k) w =
     (case map_of (timeouts w) k of
        None \<Rightarrow> None
      | Some (due, cb) \<Rightarrow>
          if now w < due then None
          else Some (invoke cb (w\<lparr>timeouts := remove_key k (timeouts w)\<rparr>)))"
| "act FilePanelExited w = Some (w\<lparr>exitingStart := None\<rparr>)"
| "act ResultPanelExited w = Some (w\<lparr>exitingResult := None\<rparr>)"

text \<open>A step of the event loop: the handler runs, then React renders.\<close>

definition step :: "event \<Rightarrow> world \<Rightarrow> world option" where
  "step e w = (case act e w of None \<Rightarrow> None | Some v \<Rightarrow> Some (commit (ui w) v))"

text \<open>
  A run of the event loop. An event that is not enabled in the current world does not
  happen and is skipped, so every list of events is a run.
\<close>

fun play :: "event list \<Rightarrow> world \<Rightarrow> world" where
  "play [] w = w"
| "play (e # es) w = (case step e w of None \<Rightarrow> play es w | Some w' \<Rightarrow> play es w')"

inductive reachable :: "world \<Rightarrow> bool" where
  reach_initial: "reachable (initial t)"
| reach_step: "reachable w \<Longrightarrow> step e w = Some w' \<Longrightarrow> reachable w'"

subsection \<open>What the claims observe\<close>

text \<open>
  The workflow state the page shows, read off the flags the way the markup does: the
  result panel is rendered when \<open>processingComplete\<close> holds (line 403), the progress
  panel when \<open>isProcessing\<close> holds (line 373), the selected file or the upload prompt
  otherwise (line 309). The component keeps no flag for a failed conversion: after a
  failure the page shows the selected file again.
\<close>

datatype workflowState = Idle | FileSelected | Processing | Complete

definition workflowState :: "home \<Rightarrow> workflowState" where
  "workflowState h =
     (if processingComplete h then Complete
      else if isProcessing h then Processing
      else if selectedFile h = None then Idle
      else FileSelected)"

text \<open>A conversion request fails when \<open>fetch\<close> rejects or the status is not 2xx.\<close>

fun failure :: "response settled \<Rightarrow> bool" where
  "failure (Rejected error) = True"
| "failure (Resolved r) = (\<not> ok r)"

text \<open>
  \<open>processing_since t w\<close>: the start button was pressed at time \<open>t\<close>, and
  \<open>isProcessing\<close> has held in every world from then up to \<open>w\<close>.
\<close>

inductive processing_since :: "int \<Rightarrow> world \<Rightarrow> bool" where
  entered: "reachable w \<Longrightarrow> step ClickStart w = Some w' \<Longrightarrow> processing_since (now w) w'"
| stayed: "processing_since t w \<Longrightarrow> step e w = Some w' \<Longrightarrow> isProcessing (ui w') \<Longrightarrow>
     processing_since t w'"

text \<open>The same for a run from a given world, as a function.\<close>

fun stays_processing :: "event list \<Rightarrow> world \<Rightarrow> bool" where
  "stays_processing [] w = True"
| "stays_processing (e # es) w =
     (case step e w of
        None \<Rightarrow> False
      | Some w' \<Rightarrow> isProcessing (ui w') \<and> stays_processing es w')"

subsection \<open>The phases of a conversion\<close>

text \<open>
  Every reachable world is in one of four phases: no conversion is under way; the
  request is in flight; the response has arrived early and the padding timeout is
  pending; the 500 ms timeout before the result panel is pending.
\<close>

definition quiet :: "world \<Rightarrow> bool" where
  "quiet w =
     (requests w = [] \<and> timeouts w = [] \<and> intervals w = [] \<and> \<not> isProcessing (ui w) \<and>
      0 \<le> processingProgress (ui w) \<and> processingProgress (ui w) \<le> 100 \<and>
      (processingComplete (ui w) \<longrightarrow> processingProgress (ui w) = 100))"

definition fetching :: "world \<Rightarrow> bool" where
  "fetching w =
     (\<exists>k t i. requests w = [(k, t, i)] \<and> timeouts w = [] \<and> intervals w = [i] \<and>
        isProcessing (ui w) \<and> \<not> processingComplete (ui w) \<and>
        0 \<le> processingProgress (ui w) \<and> processingProgress (ui w) < 91.5)"

definition padding :: "world \<Rightarrow> bool" where
  "padding w =
     (\<exists>k due i b. requests w = [] \<and> timeouts w = [(k, due, AfterFloor i b)] \<and>
        intervals w = [i] \<and> isProcessing (ui w) \<and> \<not> processingComplete (ui w) \<and>
        0 \<le> processingProgress (ui w) \<and> processingProgress (ui w) < 91.5)"

definition finishing :: "world \<Rightarrow> bool" where
  "finishing w =
     (\<exists>k due. requests w = [] \<and> timeouts w = [(k, due, Finish)] \<and> intervals w = [] \<and>
        isProcessing (ui w) \<and> \<not> processingComplete (ui w) \<and>
        processingProgress (ui w) = 100)"

definition inv :: "world \<Rightarrow> bool" where
  "inv w = (quiet w \<or> fetching w \<or> padding w \<or> finishing w)"

text \<open>
  An exiting file panel holds a start button only if no conversion was under way and no
  result was shown when the file was removed, and that is still so while the button is
  there.
\<close>

definition stale_ok :: "world \<Rightarrow> bool" where
  "stale_ok w =
     (exitingStart w \<noteq> None \<longrightarrow> \<not> isProcessing (ui w) \<and> \<not> processingComplete (ui w))"

text \<open>
  While a conversion that started at \<open>t\<close> is under way, the suspended function holds
  \<open>startTime = t\<close> and no timeout is due before \<open>t + minTime\<close>.
\<close>

definition due_after :: "int \<Rightarrow> world \<Rightarrow> bool" where
  "due_after t w =
     ((\<forall>k t0 i. (k, t0, i) \<in> set (requests w) \<longrightarrow> t0 = t) \<and>
      (\<forall>k due cb. (k, due, cb) \<in> set (timeouts w) \<longrightarrow> t + minTime \<le> due))"

subsection \<open>The scenarios of the specification\<close>

definition song :: File where
  "song = \<lparr>name = ''song.mp3'', type = ''audio/mpeg''\<rparr>"

definition clip :: File where
  "clip = \<lparr>name = ''clip.txt'', type = ''text/plain''\<rparr>"

definition riff :: File where
  "riff = \<lparr>name = ''riff.wav'', type = ''audio/wav''\<rparr>"

definition pdf :: "response settled" where
  "pdf = Resolved \<lparr>status = 200, body = Resolved ''%PDF''\<rparr>"

definition decodeError :: "response settled" where
  "decodeError = Resolved \<lparr>status = 500, body = Resolved ''decode error''\<rparr>"

text \<open>
  Scenario A: \<open>song.mp3\<close> is selected and converted; the response arrives after two
  seconds. Scenario C: the endpoint answers 500 with the body \<open>decode error\<close>.
\<close>

definition selected :: world where
  "selected = play [FileChange (Some song)] (initial 0)"

definition requested :: world where
  "requested = play [ClickStart, Advance 2000, Tick 0 0.5] selected"

definition padded :: world where
  "padded = play [Settle 1 pdf, Tick 0 0.5, Advance 18000] requested"

definition finalizing :: world where
  "finalizing = play [Fire 2, Advance 500] padded"

definition completed :: world where
  "completed = play [Fire 3] finalizing"

text \<open>Sixty-one ticks with \<open>Math.random() = 0.99\<close> take the progress value past 90.\<close>

definition ceilinged :: world where
  "ceilinged = play (replicate 61 (Tick 0 0.99)) requested"

definition refused :: world where
  "refused =
     play [FileChange (Some riff), ClickStart, Advance 300, Settle 1 decodeError] (initial 0)"

text \<open>
  The same failure after the file has been removed during the run, and the world in which
  \<open>riff.wav\<close> has only been selected.
\<close>

definition abandoned :: world where
  "abandoned =
     play [FileChange (Some riff), ClickStart, ClickRemove, Advance 300, Settle 1 decodeError]
       (initial 0)"

definition chosen :: world where
  "chosen = play [FileChange (Some riff)] (initial 0)"

text \<open>
  The file of scenario A is removed before any conversion, and the start button of the
  exiting panel is clicked. The result of scenario A is dismissed with the button New
  Conversion, and the download button of the exiting panel is clicked.
\<close>

definition removed :: world where
  "removed = play [ClickRemove] selected"

definition restarted :: world where
  "restarted = play [ClickStart] removed"

definition dismissed :: world where
  "dismissed = play [ClickNewConversion] completed"

definition downloaded :: world where
  "downloaded = play [ClickDownload] dismissed"

section \<open>Properties\<close>

subsection \<open>Unfolding the model\<close>

lemmas setter_defs = setSelectedFile_def setIsProcessing_def setProcessingProgress_def
  setProcessingComplete_def setPdfUrl_def

lemmas browser_defs = setInterval_def clearInterval_def setTimeout_def fetch_def
  createObjectURL_def emit_def

lemmas handler_defs = handleFileChange_def handleDrop_def handleStartProcess_def tick_def
  succeed_def catch_def resume_def finish_def handleDownload_def removeFile_def
  newConversion_def

lemmas run_defs = initial_def setter_defs browser_defs handler_defs canStart_def
  updater_def ok_def minTime_def remove_key_def dropAccepts_def endsWith_def Let_def
  commit_def startButton_def downloadButton_def newConversionButton_def

text \<open>The steps of the event loop, event by event.\<close>

lemma step_simps [simp]:
  "step (FileChange candidate) w = Some (commit (ui w) (handleFileChange candidate w))"
  "step (Drop candidate) w = Some (commit (ui w) (handleDrop candidate w))"
  "step ClickStart w =
     (case startButton w of
        None \<Rightarrow> None
      | Some f \<Rightarrow>
          Some (commit (ui w) (handleStartProcess (Some f) (w\<lparr>exitingStart := None\<rparr>))))"
  "step ClickRemove w =
     (if selectedFile (ui w) \<noteq> None then Some (commit (ui w) (removeFile w)) else None)"
  "step ClickDownload w =
     (case downloadButton w of
        None \<Rightarrow> None
      | Some captured \<Rightarrow> Some (commit (ui w) (handleDownload captured w)))"
  "step ClickNewConversion w =
     (if newConversionButton w then Some (commit (ui w) (newConversion w)) else None)"
  "step (Advance d) w = Some (commit (ui w) (w\<lparr>now := now w + int d\<rparr>))"
  "step (Tick i r) w =
     (if i \<in> set (intervals w) \<and> 0 \<le> r \<and> r < 1 then Some (commit (ui w) (tick r w))
      else None)"
  "step (Settle k result) w =
     (case map_of (requests w) k of
        None \<Rightarrow> None
      | Some (startTime, interval) \<Rightarrow>
          Some (commit (ui w)
            (resume startTime interval result (w\<lparr>requests := remove_key k (requests w)\<rparr>))))"
  "step (Fire k) w =
     (case map_of (timeouts w) k of
        None \<Rightarrow> None
      | Some (due, cb) \<Rightarrow>
          if now w < due then None
          else Some (commit (ui w) (invoke cb (w\<lparr>timeouts := remove_key k (timeouts w)\<rparr>))))"
  "step FilePanelExited w = Some (commit (ui w) (w\<lparr>exitingStart := None\<rparr>))"
  "step ResultPanelExited w = Some (commit (ui w) (w\<lparr>exitingResult := None\<rparr>))"
  by (simp_all add: step_def split: option.split)

text \<open>A render changes nothing but the record of the exiting panels.\<close>

lemma commit_fields [simp]:
  "ui (commit h w) = ui w" "now (commit h w) = now w" "nextId (commit h w) = nextId w"
  "intervals (commit h w) = intervals w" "timeouts (commit h w) = timeouts w"
  "requests (commit h w) = requests w" "objectURLs (commit h w) = objectURLs w"
  "effects (commit h w) = effects w"
  by (simp_all add: commit_def)

lemmas phase_defs = quiet_def fetching_def padding_def finishing_def

lemmas world_defs = selected_def requested_def padded_def finalizing_def completed_def
  refused_def song_def clip_def riff_def pdf_def decodeError_def

subsection \<open>What each handler changes\<close>

lemma handleFileChange_fields:
  "isProcessing (ui (handleFileChange c w)) = isProcessing (ui w)"
  "processingProgress (ui (handleFileChange c w)) = processingProgress (ui w)"
  "processingComplete (ui (handleFileChange c w)) = (c = None \<and> processingComplete (ui w))"
  "intervals (handleFileChange c w) = intervals w"
  "timeouts (handleFileChange c w) = timeouts w"
  "requests (handleFileChange c w) = requests w"
  "now (handleFileChange c w) = now w"
  by (simp_all add: handleFileChange_def setter_defs Let_def split: option.split)

lemma handleDrop_fields:
  "isProcessing (ui (handleDrop c w)) = isProcessing (ui w)"
  "processingProgress (ui (handleDrop c w)) = processingProgress (ui w)"
  "processingComplete (ui (handleDrop c w)) \<Longrightarrow> processingComplete (ui w)"
  "intervals (handleDrop c w) = intervals w"
  "timeouts (handleDrop c w) = timeouts w"
  "requests (handleDrop c w) = requests w"
  "now (handleDrop c w) = now w"
  by (simp_all add: handleDrop_def setter_defs Let_def split: option.splits if_splits)

lemma tick_fields:
  "isProcessing (ui (tick r w)) = isProcessing (ui w)"
  "processingProgress (ui (tick r w)) = updater r (processingProgress (ui w))"
  "processingComplete (ui (tick r w)) = processingComplete (ui w)"
  "intervals (tick r w) = intervals w"
  "timeouts (tick r w) = timeouts w"
  "requests (tick r w) = requests w"
  "now (tick r w) = now w"
  by (simp_all add: tick_def setter_defs)

lemma catch_fields:
  "isProcessing (ui (catch i e w)) = False"
  "processingProgress (ui (catch i e w)) = 0"
  "processingComplete (ui (catch i e w)) = processingComplete (ui w)"
  "intervals (catch i e w) = removeAll i (intervals w)"
  "timeouts (catch i e w) = timeouts w"
  "requests (catch i e w) = requests w"
  "now (catch i e w) = now w"
  by (simp_all add: catch_def setter_defs browser_defs Let_def)

lemma succeed_fields:
  "isProcessing (ui (succeed i b w)) = isProcessing (ui w)"
  "processingProgress (ui (succeed i b w)) = 100"
  "processingComplete (ui (succeed i b w)) = processingComplete (ui w)"
  "intervals (succeed i b w) = removeAll i (intervals w)"
  "timeouts (succeed i b w) = timeouts w @ [(nextId w, now w + 500, Finish)]"
  "requests (succeed i b w) = requests w"
  "now (succeed i b w) = now w"
  by (simp_all add: succeed_def setter_defs browser_defs Let_def)

lemma finish_fields:
  "isProcessing (ui (finish w)) = False"
  "processingProgress (ui (finish w)) = processingProgress (ui w)"
  "processingComplete (ui (finish w)) = True"
  "intervals (finish w) = intervals w"
  "timeouts (finish w) = timeouts w"
  "requests (finish w) = requests w"
  "now (finish w) = now w"
  by (simp_all add: finish_def setter_defs)

lemma setTimeout_fields:
  "ui (setTimeout cb d w) = ui w"
  "intervals (setTimeout cb d w) = intervals w"
  "timeouts (setTimeout cb d w) = timeouts w @ [(nextId w, now w + d, cb)]"
  "requests (setTimeout cb d w) = requests w"
  "now (setTimeout cb d w) = now w"
  by (simp_all add: setTimeout_def)

lemma handleStartProcess_fields:
  "isProcessing (ui (handleStartProcess (Some f) w))"
  "processingComplete (ui (handleStartProcess c w)) = processingComplete (ui w)"
  "requests (handleStartProcess (Some f) w) = requests w @ [(Suc (nextId w), now w, nextId w)]"
  "timeouts (handleStartProcess c w) = timeouts w"
  "now (handleStartProcess c w) = now w"
  by (auto simp: handleStartProcess_def setter_defs browser_defs Let_def split: option.splits)

lemma handleStartProcess_progress:
  "processingProgress (ui (handleStartProcess (Some f) w)) = 0"
  by (auto simp: handleStartProcess_def setter_defs browser_defs Let_def split: option.splits)

lemma button_fields:
  "requests (removeFile w) = requests w" "timeouts (removeFile w) = timeouts w"
  "intervals (removeFile w) = intervals w"
  "isProcessing (ui (removeFile w)) = isProcessing (ui w)"
  "processingComplete (ui (removeFile w)) = processingComplete (ui w)"
  "processingProgress (ui (removeFile w)) = processingProgress (ui w)"
  "requests (newConversion w) = requests w" "timeouts (newConversion w) = timeouts w"
  "intervals (newConversion w) = intervals w"
  "isProcessing (ui (newConversion w)) = isProcessing (ui w)"
  "processingComplete (ui (newConversion w)) = False"
  "processingProgress (ui (newConversion w)) = processingProgress (ui w)"
  "requests (handleDownload c w) = requests w" "timeouts (handleDownload c w) = timeouts w"
  "intervals (handleDownload c w) = intervals w"
  "ui (handleDownload c w) = ui w"
  by (simp_all add: removeFile_def newConversion_def handleDownload_def setter_defs emit_def
        Let_def split: option.split)

text \<open>What \<open>resume\<close> comes to: one of three continuations.\<close>

lemma resume_cases:
  obtains (failed) e where "resume t i res w = catch i e w"
  | (padded) b where "now w - t < minTime"
      and "resume t i res w = setTimeout (AfterFloor i b) (minTime - (now w - t)) w"
  | (passed) b where "minTime \<le> now w - t" and "resume t i res w = succeed i b w"
proof (cases res)
  case (Rejected e)
  then have "resume t i res w = catch i e w"
    by (simp add: resume_def)
  then show ?thesis by (rule failed)
next
  case (Resolved r)
  show ?thesis
  proof (cases "body r")
    case (Rejected e)
    with Resolved have "resume t i res w = catch i e w"
      by (simp add: resume_def)
    then show ?thesis by (rule failed)
  next
    case body: (Resolved b)
    show ?thesis
    proof (cases "ok r")
      case False
      with Resolved body have "resume t i res w = catch i (''Processing failed: '' @ b) w"
        by (simp add: resume_def)
      then show ?thesis by (rule failed)
    next
      case True
      show ?thesis
      proof (cases "now w - t < minTime")
        case True
        with Resolved body \<open>ok r\<close>
        have "resume t i res w = setTimeout (AfterFloor i b) (minTime - (now w - t)) w"
          by (simp add: resume_def)
        with True show ?thesis by (rule padded)
      next
        case False
        with Resolved body \<open>ok r\<close> have "resume t i res w = succeed i b w"
          by (simp add: resume_def)
        with False show ?thesis by (intro passed) simp_all
      qed
    qed
  qed
qed

lemma resume_fields:
  "processingComplete (ui (resume t i res w)) = processingComplete (ui w)"
  "now (resume t i res w) = now w"
  "requests (resume t i res w) = requests w"
  by (rule resume_cases [of t i res w]; simp add: catch_fields succeed_fields setTimeout_fields)+

lemma resume_failure: "failure res \<Longrightarrow> \<exists>e. resume t i res w = catch i e w"
  by (cases res) (auto simp: resume_def split: settled.splits)

lemma resume_writes_100:
  assumes "processingProgress (ui (resume t i res w)) = 100"
    and "processingProgress (ui w) \<noteq> 100"
  shows "\<exists>r b. res = Resolved r \<and> ok r \<and> body r = Resolved b"
  using assms
  by (auto simp: resume_def catch_fields setTimeout_fields Let_def split: settled.splits if_splits)

lemma updater_bounds:
  assumes "0 \<le> r" and "r < 1" and "0 \<le> p" and "p < 91.5"
  shows "0 \<le> updater r p" and "updater r p < 91.5" and "p \<le> updater r p"
  using assms by (auto simp: updater_def)

lemma updater_step:
  assumes "0 \<le> r" and "r < 1"
  shows "p \<le> updater r p" and "updater r p \<le> p + 1.5" and "90 \<le> p \<Longrightarrow> updater r p = p"
  using assms by (auto simp: updater_def)

lemma event_kinds:
  obtains (start) "e = ClickStart"
  | (settle) k res where "e = Settle k res"
  | (fire) k where "e = Fire k"
  | (other) "e \<noteq> ClickStart" and "\<forall>k res. e \<noteq> Settle k res" and "\<forall>k. e \<noteq> Fire k"
  by (cases e) auto

lemma other_steps:
  assumes "step e w = Some w'"
    and "e \<noteq> ClickStart" and "\<forall>k res. e \<noteq> Settle k res" and "\<forall>k. e \<noteq> Fire k"
  shows "requests w' = requests w \<and> timeouts w' = timeouts w \<and> intervals w' = intervals w \<and>
    isProcessing (ui w') = isProcessing (ui w) \<and>
    (processingComplete (ui w') \<longrightarrow> processingComplete (ui w))"
proof (cases e)
  case (FileChange c)
  with assms(1) have "w' = commit (ui w) (handleFileChange c w)" by simp
  then show ?thesis by (simp add: handleFileChange_fields)
next
  case (Drop c)
  with assms(1) have "w' = commit (ui w) (handleDrop c w)" by simp
  then show ?thesis using handleDrop_fields(3) [of c w] by (simp add: handleDrop_fields)
next
  case ClickRemove
  with assms(1) have "w' = commit (ui w) (removeFile w)" by (simp split: if_splits)
  then show ?thesis by (simp add: button_fields)
next
  case ClickDownload
  with assms(1) obtain c where "w' = commit (ui w) (handleDownload c w)"
    by (auto split: option.splits)
  then show ?thesis by (simp add: button_fields)
next
  case ClickNewConversion
  with assms(1) have "w' = commit (ui w) (newConversion w)" by (simp split: if_splits)
  then show ?thesis by (simp add: button_fields)
next
  case (Advance d)
  with assms(1) have "w' = commit (ui w) (w\<lparr>now := now w + int d\<rparr>)" by simp
  then show ?thesis by simp
next
  case (Tick i r)
  with assms(1) have "w' = commit (ui w) (tick r w)" by (simp split: if_splits)
  then show ?thesis by (simp add: tick_fields)
next
  case FilePanelExited
  with assms(1) have "w' = commit (ui w) (w\<lparr>exitingStart := None\<rparr>)" by simp
  then show ?thesis by simp
next
  case ResultPanelExited
  with assms(1) have "w' = commit (ui w) (w\<lparr>exitingResult := None\<rparr>)" by simp
  then show ?thesis by simp
qed (use assms in simp_all)

lemma other_steps_progress:
  assumes "step e w = Some w'"
    and "e \<noteq> ClickStart" and "\<forall>k res. e \<noteq> Settle k res" and "\<forall>k. e \<noteq> Fire k"
  shows "processingProgress (ui w) \<le> processingProgress (ui w') \<and>
    ((\<forall>i r. e \<noteq> Tick i r) \<longrightarrow> processingProgress (ui w') = processingProgress (ui w))"
proof (cases e)
  case (FileChange c)
  with assms(1) have "w' = commit (ui w) (handleFileChange c w)" by simp
  then show ?thesis using FileChange by (simp add: handleFileChange_fields)
next
  case (Drop c)
  with assms(1) have "w' = commit (ui w) (handleDrop c w)" by simp
  then show ?thesis using Drop by (simp add: handleDrop_fields)
next
  case ClickRemove
  with assms(1) have "w' = commit (ui w) (removeFile w)" by (simp split: if_splits)
  then show ?thesis using ClickRemove by (simp add: button_fields)
next
  case ClickDownload
  with assms(1) obtain c where "w' = commit (ui w) (handleDownload c w)"
    by (auto split: option.splits)
  then show ?thesis using ClickDownload by (simp add: button_fields)
next
  case ClickNewConversion
  with assms(1) have "w' = commit (ui w) (newConversion w)" by (simp split: if_splits)
  then show ?thesis using ClickNewConversion by (simp add: button_fields)
next
  case (Advance d)
  with assms(1) have "w' = commit (ui w) (w\<lparr>now := now w + int d\<rparr>)" by simp
  then show ?thesis using Advance by simp
next
  case (Tick i r)
  with assms(1) have "w' = commit (ui w) (tick r w)" and "0 \<le> r" and "r < 1" by (simp_all split: if_splits)
  then show ?thesis using Tick updater_step(1) [of r] by (simp add: tick_fields)
next
  case FilePanelExited
  with assms(1) have "w' = commit (ui w) (w\<lparr>exitingStart := None\<rparr>)" by simp
  then show ?thesis using FilePanelExited by simp
next
  case ResultPanelExited
  with assms(1) have "w' = commit (ui w) (w\<lparr>exitingResult := None\<rparr>)" by simp
  then show ?thesis using ResultPanelExited by simp
qed (use assms in simp_all)

lemma complete_entered:
  assumes "step e w = Some w'"
    and "\<not> processingComplete (ui w)" and "processingComplete (ui w')"
  shows "\<exists>k due. e = Fire k \<and> map_of (timeouts w) k = Some (due, Finish) \<and> due \<le> now w \<and>
           now w' = now w"
proof (cases e)
  case (Settle k res)
  with assms show ?thesis
    by (auto simp: resume_fields split: option.splits)
next
  case (Fire k)
  with assms obtain due cb where m: "map_of (timeouts w) k = Some (due, cb)"
    and d: "due \<le> now w"
    and w': "w' = commit (ui w) (invoke cb (w\<lparr>timeouts := remove_key k (timeouts w)\<rparr>))"
    by (auto split: option.splits if_splits)
  show ?thesis
  proof (cases cb)
    case (AfterFloor i b)
    with w' assms(2,3) show ?thesis by (simp add: succeed_fields)
  next
    case Finish
    with w' m d Fire show ?thesis by (simp add: finish_fields)
  qed
next
  case ClickStart
  with assms show ?thesis
    by (auto simp: handleStartProcess_fields split: option.splits)
qed (use assms other_steps [OF assms(1)] in simp_all)

subsection \<open>The phase invariant\<close>

lemma inv_initial: "inv (initial t)"
  by (simp add: inv_def quiet_def initial_def)

lemma inv_panels [simp]:
  "inv (commit h w) = inv w"
  "inv (w\<lparr>exitingStart := x\<rparr>) = inv w"
  "inv (w\<lparr>exitingResult := y\<rparr>) = inv w"
  by (simp_all add: inv_def phase_defs)

lemma inv_frame:
  assumes "inv w"
    and "requests w' = requests w" and "timeouts w' = timeouts w"
    and "intervals w' = intervals w"
    and "isProcessing (ui w') = isProcessing (ui w)"
    and "processingProgress (ui w') = processingProgress (ui w)"
    and "processingComplete (ui w') \<Longrightarrow> processingComplete (ui w)"
  shows "inv w'"
proof -
  from assms(1) consider "quiet w" | "fetching w" | "padding w" | "finishing w"
    unfolding inv_def by blast
  then show ?thesis
  proof cases
    case 1
    with assms(2-) have "quiet w'" unfolding quiet_def by auto
    then show ?thesis by (simp add: inv_def)
  next
    case 2
    with assms(2-) have "fetching w'" unfolding fetching_def by auto
    then show ?thesis by (simp add: inv_def)
  next
    case 3
    with assms(2-) have "padding w'" unfolding padding_def by auto
    then show ?thesis by (simp add: inv_def)
  next
    case 4
    with assms(2-) have "finishing w'" unfolding finishing_def by auto
    then show ?thesis by (simp add: inv_def)
  qed
qed

lemma inv_FileChange: "inv w \<Longrightarrow> inv (handleFileChange c w)"
  by (erule inv_frame) (simp_all add: handleFileChange_fields)

lemma inv_Drop: "inv w \<Longrightarrow> inv (handleDrop c w)"
  by (erule inv_frame) (simp_all add: handleDrop_fields)


lemma inv_Remove: "inv w \<Longrightarrow> inv (removeFile w)"
  by (erule inv_frame) (simp_all add: removeFile_def setter_defs)

lemma inv_Download: "inv w \<Longrightarrow> inv (handleDownload c w)"
  by (erule inv_frame) (simp_all add: handleDownload_def emit_def split: option.splits)

lemma inv_NewConversion: "inv w \<Longrightarrow> inv (newConversion w)"
  by (erule inv_frame) (simp_all add: newConversion_def setter_defs Let_def)

lemma inv_Advance: "inv w \<Longrightarrow> inv (w\<lparr>now := now w + d\<rparr>)"
  by (erule inv_frame) simp_all

lemma not_processing_quiet: "inv w \<Longrightarrow> \<not> isProcessing (ui w) \<Longrightarrow> quiet w"
  by (auto simp: inv_def fetching_def padding_def finishing_def)

lemma startButton_idle:
  assumes "stale_ok w" and "startButton w = Some f"
  shows "\<not> isProcessing (ui w)" and "\<not> processingComplete (ui w)"
  using assms by (auto simp: stale_ok_def startButton_def canStart_def split: if_splits)

lemma inv_Start:
  assumes "inv w" and "stale_ok w" and "startButton w = Some f"
  shows "fetching (handleStartProcess (Some f) (w\<lparr>exitingStart := None\<rparr>))"
proof -
  from assms(2,3) have p: "\<not> isProcessing (ui w)" and c: "\<not> processingComplete (ui w)"
    by (rule startButton_idle)+
  from assms(1) p have q: "quiet w"
    by (rule not_processing_quiet)
  from q have l: "requests w = []" "timeouts w = []" "intervals w = []"
    by (simp_all add: quiet_def)
  show ?thesis
    by (simp add: fetching_def handleStartProcess_def c l setter_defs browser_defs Let_def)
qed

lemma active_interval: "inv w \<Longrightarrow> i \<in> set (intervals w) \<Longrightarrow> fetching w \<or> padding w"
  by (auto simp: inv_def quiet_def finishing_def)

lemma inv_Tick:
  assumes "inv w" and "i \<in> set (intervals w)" and "0 \<le> r" and "r < 1"
  shows "inv (tick r w)"
proof -
  from assms(1,2) consider "fetching w" | "padding w"
    using active_interval by blast
  then show ?thesis
  proof cases
    case 1
    then have "fetching (tick r w)"
      unfolding fetching_def tick_fields using updater_bounds(1,2) [OF assms(3,4)] by blast
    then show ?thesis by (simp add: inv_def)
  next
    case 2
    then have "padding (tick r w)"
      unfolding padding_def tick_fields using updater_bounds(1,2) [OF assms(3,4)] by blast
    then show ?thesis by (simp add: inv_def)
  qed
qed

lemma inv_Settle:
  assumes "inv w" and "map_of (requests w) k = Some (t, i)"
  shows "inv (resume t i res (w\<lparr>requests := remove_key k (requests w)\<rparr>))"
proof -
  let ?w = "w\<lparr>requests := remove_key k (requests w)\<rparr>"
  from assms have f: "fetching w"
    by (auto simp: inv_def quiet_def padding_def finishing_def)
  with assms(2) have r: "requests w = [(k, t, i)]"
    by (auto simp: fetching_def split: if_splits)
  from f r have l: "requests ?w = []" "timeouts ?w = []" "intervals ?w = [i]"
    and u: "isProcessing (ui ?w)" "\<not> processingComplete (ui ?w)"
      "0 \<le> processingProgress (ui ?w)" "processingProgress (ui ?w) < 91.5"
    by (auto simp: fetching_def remove_key_def)
  show ?thesis
  proof (rule resume_cases [of t i res ?w])
    fix e assume failed: "resume t i res ?w = catch i e ?w"
    have "quiet (catch i e ?w)"
      unfolding quiet_def catch_fields using l u by simp
    with failed show ?thesis by (simp add: inv_def)
  next
    fix b assume padded: "resume t i res ?w = setTimeout (AfterFloor i b) (minTime - (now ?w - t)) ?w"
    have "padding (setTimeout (AfterFloor i b) (minTime - (now ?w - t)) ?w)"
      unfolding padding_def setTimeout_fields using l u by simp
    with padded show ?thesis by (simp add: inv_def)
  next
    fix b assume passed: "resume t i res ?w = succeed i b ?w"
    have "finishing (succeed i b ?w)"
      unfolding finishing_def succeed_fields using l u by simp
    with passed show ?thesis by (simp add: inv_def)
  qed
qed

lemma inv_Fire:
  assumes "inv w" and "map_of (timeouts w) k = Some (due, cb)"
  shows "inv (invoke cb (w\<lparr>timeouts := remove_key k (timeouts w)\<rparr>))"
proof -
  let ?w = "w\<lparr>timeouts := remove_key k (timeouts w)\<rparr>"
  from assms consider "padding w" | "finishing w"
    by (auto simp: inv_def quiet_def fetching_def)
  then show ?thesis
  proof cases
    case 1
    with assms(2) obtain i b where cb: "cb = AfterFloor i b"
      and t: "timeouts w = [(k, due, AfterFloor i b)]" and i: "intervals w = [i]"
      by (auto simp: padding_def split: if_splits)
    from 1 t i have l: "requests ?w = []" "timeouts ?w = []" "intervals ?w = [i]"
      and u: "isProcessing (ui ?w)" "\<not> processingComplete (ui ?w)"
      by (auto simp: padding_def remove_key_def)
    have "finishing (succeed i b ?w)"
      unfolding finishing_def succeed_fields using l u by simp
    with cb show ?thesis by (simp add: inv_def)
  next
    case 2
    with assms(2) have cb: "cb = Finish" and t: "timeouts w = [(k, due, Finish)]"
      by (auto simp: finishing_def split: if_splits)
    from 2 t have l: "requests ?w = []" "timeouts ?w = []" "intervals ?w = []"
      and u: "processingProgress (ui ?w) = 100"
      by (auto simp: finishing_def remove_key_def)
    have "quiet (finish ?w)"
      unfolding quiet_def finish_fields using l u by simp
    with cb show ?thesis by (simp add: inv_def)
  qed
qed

lemma inv_step: "inv w \<Longrightarrow> stale_ok w \<Longrightarrow> step e w = Some w' \<Longrightarrow> inv w'"
proof (cases e)
  case (FileChange c)
  assume "inv w" "step e w = Some w'"
  with FileChange show ?thesis using inv_FileChange by auto
next
  case (Drop c)
  assume "inv w" "step e w = Some w'"
  with Drop show ?thesis using inv_Drop by auto
next
  case ClickStart
  assume a: "inv w" "stale_ok w" "step e w = Some w'"
  with ClickStart obtain f where "startButton w = Some f"
    and w': "w' = commit (ui w) (handleStartProcess (Some f) (w\<lparr>exitingStart := None\<rparr>))"
    by (auto split: option.splits)
  with a have "fetching (handleStartProcess (Some f) (w\<lparr>exitingStart := None\<rparr>))"
    by (simp add: inv_Start)
  then have "inv (handleStartProcess (Some f) (w\<lparr>exitingStart := None\<rparr>))"
    by (simp add: inv_def)
  then show ?thesis by (simp add: w')
next
  case ClickRemove
  assume "inv w" "step e w = Some w'"
  with ClickRemove show ?thesis using inv_Remove by (auto split: if_splits)
next
  case ClickDownload
  assume "inv w" "step e w = Some w'"
  with ClickDownload show ?thesis using inv_Download by (auto split: option.splits)
next
  case ClickNewConversion
  assume "inv w" "step e w = Some w'"
  with ClickNewConversion show ?thesis using inv_NewConversion by (auto split: if_splits)
next
  case (Advance d)
  assume "inv w" "step e w = Some w'"
  with Advance show ?thesis using inv_Advance by auto
next
  case (Tick i r)
  assume "inv w" "step e w = Some w'"
  with Tick show ?thesis using inv_Tick by (auto split: if_splits)
next
  case (Settle k res)
  assume "inv w" "step e w = Some w'"
  with Settle show ?thesis using inv_Settle by (auto split: option.splits)
next
  case (Fire k)
  assume "inv w" "step e w = Some w'"
  with Fire show ?thesis using inv_Fire by (auto split: option.splits if_splits)
next
  case FilePanelExited
  assume "inv w" "step e w = Some w'"
  with FilePanelExited show ?thesis by auto
next
  case ResultPanelExited
  assume "inv w" "step e w = Some w'"
  with ResultPanelExited show ?thesis by auto
qed

text \<open>The start button of an exiting panel is there only while nothing is under way.\<close>

lemma exitingStart_fields:
  "exitingStart (handleFileChange c w) = exitingStart w"
  "exitingStart (handleDrop c w) = exitingStart w"
  "exitingStart (handleStartProcess c' w) = exitingStart w"
  "exitingStart (removeFile w) = exitingStart w"
  "exitingStart (newConversion w) = exitingStart w"
  "exitingStart (handleDownload u w) = exitingStart w"
  "exitingStart (tick r w) = exitingStart w"
  "exitingStart (catch i e w) = exitingStart w"
  "exitingStart (finish w) = exitingStart w"
  "exitingStart (setTimeout cb d w) = exitingStart w"
  "exitingStart (succeed i b w) = exitingStart w"
  by (simp_all add: handler_defs setter_defs browser_defs Let_def split_beta
        split: option.split)

lemma exitingStart_resume: "exitingStart (resume t i res w) = exitingStart w"
  by (rule resume_cases [of t i res w]) (simp_all add: exitingStart_fields)

lemma selectedFile_fields:
  "selectedFile (ui (handleStartProcess c w)) = selectedFile (ui w)"
  "selectedFile (ui (finish w)) = selectedFile (ui w)"
  by (simp_all add: handler_defs setter_defs browser_defs Let_def split_beta
        split: option.split)

lemma isProcessing_resume: "isProcessing (ui (resume t i res w)) \<Longrightarrow> isProcessing (ui w)"
  by (rule resume_cases [of t i res w])
     (simp_all add: catch_fields setTimeout_fields succeed_fields)

lemma stale_ok_commit:
  assumes "stale_ok w"
    and "isProcessing (ui v) \<Longrightarrow> isProcessing (ui w)"
    and "processingComplete (ui v) \<Longrightarrow> processingComplete (ui w)"
    and "exitingStart v = exitingStart w \<or> exitingStart v = None"
  shows "stale_ok (commit (ui w) v)"
  using assms by (auto simp: stale_ok_def commit_def canStart_def)

lemma stale_ok_step:
  assumes "inv w" and "stale_ok w" and "step e w = Some w'"
  shows "stale_ok w'"
proof (rule event_kinds [of e])
  assume "e = ClickStart"
  with assms(3) obtain f where
    "w' = commit (ui w) (handleStartProcess (Some f) (w\<lparr>exitingStart := None\<rparr>))"
    by (auto split: option.splits)
  then show ?thesis
    by (simp add: stale_ok_def commit_def exitingStart_fields selectedFile_fields)
next
  fix k res assume "e = Settle k res"
  with assms(3) obtain t i where
    "w' = commit (ui w) (resume t i res (w\<lparr>requests := remove_key k (requests w)\<rparr>))"
    by (auto split: option.splits)
  moreover have "stale_ok (commit (ui w)
    (resume t i res (w\<lparr>requests := remove_key k (requests w)\<rparr>)))"
    using assms(2)
  proof (rule stale_ok_commit)
    assume "isProcessing (ui (resume t i res (w\<lparr>requests := remove_key k (requests w)\<rparr>)))"
    then show "isProcessing (ui w)"
      using isProcessing_resume [of t i res "w\<lparr>requests := remove_key k (requests w)\<rparr>"]
      by simp
  qed (simp_all add: resume_fields exitingStart_resume)
  ultimately show ?thesis by simp
next
  fix k assume "e = Fire k"
  with assms(3) obtain due cb where m: "map_of (timeouts w) k = Some (due, cb)"
    and w': "w' = commit (ui w) (invoke cb (w\<lparr>timeouts := remove_key k (timeouts w)\<rparr>))"
    by (auto split: option.splits if_splits)
  from assms(1) m have "isProcessing (ui w)"
    by (auto simp: inv_def phase_defs)
  with assms(2) have n: "exitingStart w = None"
    by (auto simp: stale_ok_def)
  show ?thesis
  proof (cases cb)
    case (AfterFloor i b)
    with w' n show ?thesis
      by (simp add: stale_ok_def commit_def exitingStart_fields succeed_def setter_defs
            browser_defs Let_def split_beta canStart_def \<open>isProcessing (ui w)\<close>)
  next
    case Finish
    with w' n show ?thesis
      by (simp add: stale_ok_def commit_def exitingStart_fields selectedFile_fields
            canStart_def \<open>isProcessing (ui w)\<close>)
  qed
next
  assume o: "e \<noteq> ClickStart" "\<forall>k res. e \<noteq> Settle k res" "\<forall>k. e \<noteq> Fire k"
  from assms(3) obtain v where a: "act e w = Some v" and w': "w' = commit (ui w) v"
    by (auto simp: step_def split: option.splits)
  from other_steps [OF assms(3) o] w'
  have f: "isProcessing (ui v) = isProcessing (ui w)"
    "processingComplete (ui v) \<longrightarrow> processingComplete (ui w)"
    by simp_all
  from a o have x: "exitingStart v = exitingStart w \<or> exitingStart v = None"
    by (cases e) (auto simp: exitingStart_fields split: if_splits option.splits)
  from assms(2) f x show ?thesis
    unfolding w' by (intro stale_ok_commit) auto
qed

lemma reachable_invs: "reachable w \<Longrightarrow> inv w \<and> stale_ok w"
proof (induction rule: reachable.induct)
  case (reach_initial t)
  show ?case by (rule conjI [OF inv_initial]) (simp add: stale_ok_def initial_def)
next
  case (reach_step w e w')
  then show ?case using inv_step stale_ok_step by blast
qed

lemma reachable_inv: "reachable w \<Longrightarrow> inv w"
  by (simp add: reachable_invs)

lemma reachable_stale_ok: "reachable w \<Longrightarrow> stale_ok w"
  by (simp add: reachable_invs)

lemma reachable_play: "reachable w \<Longrightarrow> reachable (play es w)"
  by (induction es arbitrary: w) (auto split: option.splits intro: reach_step)

lemma workflowState_simps:
  "(workflowState h = Complete) = processingComplete h"
  "(workflowState h = Processing) = (isProcessing h \<and> \<not> processingComplete h)"
  by (simp_all add: workflowState_def)

lemma no_start_while_processing:
  "stale_ok w \<Longrightarrow> isProcessing (ui w) \<Longrightarrow> startButton w = None"
  by (auto simp: stale_ok_def startButton_def canStart_def)

lemma progress_mono:
  assumes "inv w" and "step e w = Some w'"
    and "isProcessing (ui w)" and "isProcessing (ui w')" and "stale_ok w"
  shows "processingProgress (ui w) \<le> processingProgress (ui w')"
proof (rule event_kinds [of e])
  assume "e = ClickStart"
  with assms(2,3,5) show ?thesis by (simp add: no_start_while_processing)
next
  fix k res assume "e = Settle k res"
  with assms(2) obtain t i where m: "map_of (requests w) k = Some (t, i)"
    and w': "w' = commit (ui w) (resume t i res (w\<lparr>requests := remove_key k (requests w)\<rparr>))"
    by (auto split: option.splits)
  let ?w = "w\<lparr>requests := remove_key k (requests w)\<rparr>"
  from assms(1) m have "fetching w"
    by (auto simp: inv_def quiet_def padding_def finishing_def)
  then have p: "processingProgress (ui w) < 91.5"
    by (auto simp: fetching_def)
  show ?thesis
  proof (rule resume_cases [of t i res ?w])
    fix e assume "resume t i res ?w = catch i e ?w"
    with w' assms(4) show ?thesis by (simp add: catch_fields)
  next
    fix b assume "resume t i res ?w = setTimeout (AfterFloor i b) (minTime - (now ?w - t)) ?w"
    with w' show ?thesis by (simp add: setTimeout_fields)
  next
    fix b assume "resume t i res ?w = succeed i b ?w"
    with w' p show ?thesis by (simp add: succeed_fields)
  qed
next
  fix k assume "e = Fire k"
  with assms(2) obtain due cb where m: "map_of (timeouts w) k = Some (due, cb)"
    and w': "w' = commit (ui w) (invoke cb (w\<lparr>timeouts := remove_key k (timeouts w)\<rparr>))"
    by (auto split: option.splits if_splits)
  show ?thesis
  proof (cases cb)
    case (AfterFloor i b)
    with assms(1) m have "padding w"
      by (auto simp: inv_def quiet_def fetching_def finishing_def split: if_splits)
    then have "processingProgress (ui w) < 91.5"
      by (auto simp: padding_def)
    with w' AfterFloor show ?thesis by (simp add: succeed_fields)
  next
    case Finish
    with w' assms(4) show ?thesis by (simp add: finish_fields)
  qed
next
  assume "e \<noteq> ClickStart" and "\<forall>k res. e \<noteq> Settle k res" and "\<forall>k. e \<noteq> Fire k"
  with assms(2) show ?thesis using other_steps_progress by blast
qed

lemma at_100_no_interval:
  assumes "inv w" and "processingProgress (ui w) = 100"
  shows "quiet w \<or> finishing w"
  using assms by (auto simp: inv_def fetching_def padding_def)

subsection \<open>The start time of a conversion\<close>

lemma processing_since_reachable: "processing_since t w \<Longrightarrow> reachable w"
  by (induction rule: processing_since.induct) (rule reach_step; assumption)+

lemma processing_since_isProcessing: "processing_since t w \<Longrightarrow> isProcessing (ui w)"
  by (induction rule: processing_since.induct)
     (auto simp: handleStartProcess_fields split: option.splits)

lemma due_after_panels [simp]:
  "due_after t (commit h w) = due_after t w"
  "due_after t (w\<lparr>exitingStart := x\<rparr>) = due_after t w"
  by (simp_all add: due_after_def)

lemma due_after_start:
  assumes "inv w" and "stale_ok w" and "step ClickStart w = Some w'"
  shows "due_after (now w) w'"
proof -
  from assms(3) obtain f where b: "startButton w = Some f"
    and w': "w' = commit (ui w) (handleStartProcess (Some f) (w\<lparr>exitingStart := None\<rparr>))"
    by (auto split: option.splits)
  from assms(2) b have "\<not> isProcessing (ui w)"
    by (rule startButton_idle)
  with assms(1) have "quiet w"
    by (rule not_processing_quiet)
  then have "requests w = []" "timeouts w = []"
    by (simp_all add: quiet_def)
  then show ?thesis
    by (simp add: due_after_def w' handleStartProcess_fields)
qed

lemma due_after_frame:
  "requests w' = requests w \<Longrightarrow> timeouts w' = timeouts w \<Longrightarrow> due_after t w \<Longrightarrow> due_after t w'"
  by (simp add: due_after_def)

lemma due_after_empty: "requests w = [] \<Longrightarrow> timeouts w = [] \<Longrightarrow> due_after t w"
  by (simp add: due_after_def)

lemma due_after_timeout:
  "requests w = [] \<Longrightarrow> timeouts w = [(k, due, cb)] \<Longrightarrow> t + minTime \<le> due \<Longrightarrow> due_after t w"
  by (simp add: due_after_def)

lemma due_after_step:
  assumes "inv w" and "isProcessing (ui w)" and "due_after t w" and "step e w = Some w'"
    and "stale_ok w"
  shows "due_after t w'"
proof (rule event_kinds [of e])
  assume "e = ClickStart"
  with assms(2,4,5) show ?thesis by (simp add: no_start_while_processing)
next
  fix k res assume "e = Settle k res"
  with assms(4) obtain t0 i where m: "map_of (requests w) k = Some (t0, i)"
    and w': "w' = commit (ui w) (resume t0 i res (w\<lparr>requests := remove_key k (requests w)\<rparr>))"
    by (auto split: option.splits)
  let ?w = "w\<lparr>requests := remove_key k (requests w)\<rparr>"
  from assms(1) m have f: "fetching w"
    by (auto simp: inv_def quiet_def padding_def finishing_def)
  with m have r: "requests w = [(k, t0, i)]"
    by (auto simp: fetching_def split: if_splits)
  with assms(3) have t0: "t0 = t"
    by (simp add: due_after_def)
  from f r have l: "requests ?w = []" "timeouts ?w = []"
    by (auto simp: fetching_def remove_key_def)
  show ?thesis
  proof (rule resume_cases [of t0 i res ?w])
    fix e assume "resume t0 i res ?w = catch i e ?w"
    with w' have "w' = commit (ui w) (catch i e ?w)" by simp
    with l show ?thesis by (intro due_after_empty) (simp_all only: catch_fields commit_fields)
  next
    fix b assume "resume t0 i res ?w = setTimeout (AfterFloor i b) (minTime - (now ?w - t0)) ?w"
    with w' have "w' = commit (ui w) (setTimeout (AfterFloor i b) (minTime - (now ?w - t0)) ?w)" by simp
    then have "requests w' = requests ?w"
      and "timeouts w' = timeouts ?w @ [(nextId ?w, now ?w + (minTime - (now ?w - t0)), AfterFloor i b)]"
      by (simp_all only: setTimeout_fields commit_fields)
    with l have "requests w' = []"
      and "timeouts w' = [(nextId ?w, now ?w + (minTime - (now ?w - t0)), AfterFloor i b)]"
      by simp_all
    then show ?thesis by (rule due_after_timeout) (simp add: t0)
  next
    fix b assume p: "minTime \<le> now ?w - t0" and "resume t0 i res ?w = succeed i b ?w"
    with w' have "w' = commit (ui w) (succeed i b ?w)" by simp
    then have "requests w' = requests ?w"
      and "timeouts w' = timeouts ?w @ [(nextId ?w, now ?w + 500, Finish)]"
      by (simp_all only: succeed_fields commit_fields)
    with l have "requests w' = []" and "timeouts w' = [(nextId ?w, now ?w + 500, Finish)]"
      by simp_all
    then show ?thesis by (rule due_after_timeout) (use p t0 in simp)
  qed
next
  fix k assume "e = Fire k"
  with assms(4) obtain due cb where m: "map_of (timeouts w) k = Some (due, cb)"
    and d: "due \<le> now w"
    and w': "w' = commit (ui w) (invoke cb (w\<lparr>timeouts := remove_key k (timeouts w)\<rparr>))"
    by (auto split: option.splits if_splits)
  let ?w = "w\<lparr>timeouts := remove_key k (timeouts w)\<rparr>"
  from assms(1) m have "padding w \<or> finishing w"
    by (auto simp: inv_def quiet_def fetching_def)
  with m have t: "timeouts w = [(k, due, cb)]" and r: "requests w = []"
    by (auto simp: padding_def finishing_def split: if_splits)
  with assms(3) have "t + minTime \<le> due"
    by (simp add: due_after_def)
  with d have n: "t + minTime \<le> now w" by simp
  from t r have l: "requests ?w = []" "timeouts ?w = []"
    by (simp_all add: remove_key_def)
  show ?thesis
  proof (cases cb)
    case (AfterFloor i b)
    with w' have "w' = commit (ui w) (succeed i b ?w)" by simp
    then have "requests w' = requests ?w"
      and "timeouts w' = timeouts ?w @ [(nextId ?w, now ?w + 500, Finish)]"
      by (simp_all only: succeed_fields commit_fields)
    with l have "requests w' = []" and "timeouts w' = [(nextId ?w, now ?w + 500, Finish)]"
      by simp_all
    then show ?thesis by (rule due_after_timeout) (use n in simp)
  next
    case Finish
    with w' have "w' = commit (ui w) (finish ?w)" by simp
    with l show ?thesis by (intro due_after_empty) (simp_all only: finish_fields commit_fields)
  qed
next
  assume "e \<noteq> ClickStart" and "\<forall>k res. e \<noteq> Settle k res" and "\<forall>k. e \<noteq> Fire k"
  with assms(4) have "requests w' = requests w" and "timeouts w' = timeouts w"
    using other_steps by blast+
  then show ?thesis using assms(3) by (rule due_after_frame)
qed

lemma processing_since_due: "processing_since t w \<Longrightarrow> due_after t w"
proof (induction rule: processing_since.induct)
  case (entered w w')
  then show ?case by (simp add: due_after_start reachable_inv reachable_stale_ok)
next
  case (stayed t w e w')
  then show ?case
    using due_after_step processing_since_reachable processing_since_isProcessing reachable_inv
      reachable_stale_ok
    by blast
qed

lemma processing_since_play:
  "processing_since t w \<Longrightarrow> stays_processing es w \<Longrightarrow> processing_since t (play es w)"
  by (induction es arbitrary: w) (auto split: option.splits intro: stayed)

subsection \<open>The worlds of the scenarios\<close>

lemma reachable_worlds:
  "reachable selected" "reachable requested" "reachable padded" "reachable finalizing"
  "reachable completed" "reachable refused" "reachable ceilinged"
  unfolding selected_def requested_def padded_def finalizing_def completed_def refused_def
    ceilinged_def
  by (intro reachable_play reach_initial)+

lemma selected_eq:
  "selected = \<lparr>ui = \<lparr>selectedFile = Some song, isProcessing = False, processingProgress = 0,
      processingComplete = False, pdfUrl = None\<rparr>,
    now = 0, nextId = 0, intervals = [], timeouts = [], requests = [],
    objectURLs = [], effects = [], exitingStart = None, exitingResult = None\<rparr>"
  by (simp add: world_defs run_defs)

lemma requested_eq:
  "requested = \<lparr>ui = \<lparr>selectedFile = Some song, isProcessing = True, processingProgress = 0.75,
      processingComplete = False, pdfUrl = None\<rparr>,
    now = 2000, nextId = 2, intervals = [0], timeouts = [], requests = [(1, 0, 0)],
    objectURLs = [], effects = [Post song], exitingStart = None, exitingResult = None\<rparr>"
  by (simp add: requested_def selected_eq run_defs)

lemma padded_eq:
  "padded = \<lparr>ui = \<lparr>selectedFile = Some song, isProcessing = True, processingProgress = 1.5,
      processingComplete = False, pdfUrl = None\<rparr>,
    now = 20000, nextId = 3, intervals = [0], timeouts = [(2, 20000, AfterFloor 0 ''%PDF'')],
    requests = [], objectURLs = [], effects = [Post song], exitingStart = None, exitingResult = None\<rparr>"
  by (simp add: padded_def requested_eq pdf_def run_defs)

lemma finalizing_eq:
  "finalizing = \<lparr>ui = \<lparr>selectedFile = Some song, isProcessing = True, processingProgress = 100,
      processingComplete = False, pdfUrl = Some 0\<rparr>,
    now = 20500, nextId = 4, intervals = [], timeouts = [(3, 20500, Finish)],
    requests = [], objectURLs = [(0, ''%PDF'')], effects = [Post song],
    exitingStart = None, exitingResult = None\<rparr>"
  by (simp add: finalizing_def padded_eq run_defs)

lemma completed_eq:
  "completed = \<lparr>ui = \<lparr>selectedFile = Some song, isProcessing = False, processingProgress = 100,
      processingComplete = True, pdfUrl = Some 0\<rparr>,
    now = 20500, nextId = 4, intervals = [], timeouts = [],
    requests = [], objectURLs = [(0, ''%PDF'')], effects = [Post song],
    exitingStart = None, exitingResult = None\<rparr>"
  by (simp add: completed_def finalizing_eq run_defs)

lemma processing_since_finalizing: "processing_since 0 finalizing"
proof -
  let ?started = "commit (ui selected) (handleStartProcess (Some song)
    (selected\<lparr>exitingStart := None\<rparr>))"
  have "step ClickStart selected = Some ?started"
    by (simp add: selected_eq startButton_def canStart_def)
  with reachable_worlds(1) have "processing_since (now selected) ?started"
    by (rule entered)
  moreover have "stays_processing
    [Advance 2000, Tick 0 0.5, Settle 1 pdf, Tick 0 0.5, Advance 18000, Fire 2, Advance 500]
    ?started"
    by (simp add: selected_eq pdf_def run_defs)
  ultimately have "processing_since (now selected) (play
    [Advance 2000, Tick 0 0.5, Settle 1 pdf, Tick 0 0.5, Advance 18000, Fire 2, Advance 500]
    ?started)"
    by (rule processing_since_play)
  moreover have "play
    [Advance 2000, Tick 0 0.5, Settle 1 pdf, Tick 0 0.5, Advance 18000, Fire 2, Advance 500]
    ?started = finalizing"
    by (simp add: finalizing_eq selected_eq pdf_def run_defs)
  moreover have "now selected = 0"
    by (simp add: selected_eq)
  ultimately show ?thesis by simp
qed

lemma ceilinged_eq:
  "ceilinged = \<lparr>ui = \<lparr>selectedFile = Some song, isProcessing = True,
      processingProgress = 91.335, processingComplete = False, pdfUrl = None\<rparr>,
    now = 2000, nextId = 2, intervals = [0], timeouts = [], requests = [(1, 0, 0)],
    objectURLs = [], effects = [Post song], exitingStart = None, exitingResult = None\<rparr>"
  by (simp add: ceilinged_def requested_eq eval_nat_numeral tick_def updater_def setter_defs
        commit_def)

lemma refused_eq:
  "refused = \<lparr>ui = \<lparr>selectedFile = Some riff, isProcessing = False, processingProgress = 0,
      processingComplete = False, pdfUrl = None\<rparr>,
    now = 300, nextId = 2, intervals = [], timeouts = [], requests = [],
    objectURLs = [],
    effects = [Post riff, ConsoleError ''Processing failed: decode error'',
      Alert ''Error processing file. Please check backend connection.''],
    exitingStart = None, exitingResult = None\<rparr>"
  by (simp add: refused_def decodeError_def run_defs)

lemma abandoned_eq:
  "abandoned = \<lparr>ui = \<lparr>selectedFile = None, isProcessing = False, processingProgress = 0,
      processingComplete = False, pdfUrl = None\<rparr>,
    now = 300, nextId = 2, intervals = [], timeouts = [], requests = [],
    objectURLs = [],
    effects = [Post riff, ConsoleError ''Processing failed: decode error'',
      Alert ''Error processing file. Please check backend connection.''],
    exitingStart = None, exitingResult = None\<rparr>"
  by (simp add: abandoned_def decodeError_def run_defs)

lemma chosen_eq:
  "chosen = \<lparr>ui = \<lparr>selectedFile = Some riff, isProcessing = False, processingProgress = 0,
      processingComplete = False, pdfUrl = None\<rparr>,
    now = 0, nextId = 0, intervals = [], timeouts = [], requests = [],
    objectURLs = [], effects = [], exitingStart = None, exitingResult = None\<rparr>"
  by (simp add: chosen_def run_defs)

lemma removed_eq:
  "removed = \<lparr>ui = \<lparr>selectedFile = None, isProcessing = False, processingProgress = 0,
      processingComplete = False, pdfUrl = None\<rparr>,
    now = 0, nextId = 0, intervals = [], timeouts = [], requests = [],
    objectURLs = [], effects = [], exitingStart = Some song, exitingResult = None\<rparr>"
  by (simp add: removed_def selected_eq run_defs)

lemma restarted_eq:
  "restarted = \<lparr>ui = \<lparr>selectedFile = None, isProcessing = True, processingProgress = 0,
      processingComplete = False, pdfUrl = None\<rparr>,
    now = 0, nextId = 2, intervals = [0], timeouts = [], requests = [(1, 0, 0)],
    objectURLs = [], effects = [Post song], exitingStart = None, exitingResult = None\<rparr>"
  by (simp add: restarted_def removed_eq run_defs)

lemma dismissed_eq:
  "dismissed = \<lparr>ui = \<lparr>selectedFile = None, isProcessing = False, processingProgress = 100,
      processingComplete = False, pdfUrl = None\<rparr>,
    now = 20500, nextId = 4, intervals = [], timeouts = [],
    requests = [], objectURLs = [(0, ''%PDF'')], effects = [Post song],
    exitingStart = None, exitingResult = Some (Some 0)\<rparr>"
  by (simp add: dismissed_def completed_eq run_defs)

lemma downloaded_eq:
  "downloaded = \<lparr>ui = \<lparr>selectedFile = None, isProcessing = False,
      processingProgress = 100, processingComplete = False, pdfUrl = None\<rparr>,
    now = 20500, nextId = 4, intervals = [], timeouts = [],
    requests = [], objectURLs = [(0, ''%PDF'')],
    effects = [Post song, SaveAs ''sheet_music.pdf'' 0],
    exitingStart = None, exitingResult = Some (Some 0)\<rparr>"
  by (simp add: downloaded_def dismissed_eq run_defs)

subsection \<open>Object URLs are only ever added\<close>

lemma objectURLs_fields:
  "objectURLs (handleFileChange c w) = objectURLs w"
  "objectURLs (handleDrop c w) = objectURLs w"
  "objectURLs (handleStartProcess c' w) = objectURLs w"
  "objectURLs (removeFile w) = objectURLs w"
  "objectURLs (newConversion w) = objectURLs w"
  "objectURLs (handleDownload u w) = objectURLs w"
  "objectURLs (tick r w) = objectURLs w"
  "objectURLs (catch i e w) = objectURLs w"
  "objectURLs (finish w) = objectURLs w"
  "objectURLs (setTimeout cb d w) = objectURLs w"
  "objectURLs (succeed i b w) = objectURLs w @ [(length (objectURLs w), b)]"
  by (simp_all add: handler_defs setter_defs browser_defs Let_def split: option.split)

lemma objectURLs_resume: "prefix (objectURLs w) (objectURLs (resume t i res w))"
  by (rule resume_cases [of t i res w]) (simp_all add: objectURLs_fields)

lemma objectURLs_step:
  assumes "step e w = Some w'"
  shows "prefix (objectURLs w) (objectURLs w')"
proof (cases e)
  case (Settle k res)
  with assms obtain t i where
    "w' = commit (ui w) (resume t i res (w\<lparr>requests := remove_key k (requests w)\<rparr>))"
    by (auto split: option.splits)
  then show ?thesis
    using objectURLs_resume [of "w\<lparr>requests := remove_key k (requests w)\<rparr>" t i res]
    by simp
next
  case (Fire k)
  with assms obtain cb where
    w': "w' = commit (ui w) (invoke cb (w\<lparr>timeouts := remove_key k (timeouts w)\<rparr>))"
    by (auto split: option.splits if_splits)
  show ?thesis
    by (cases cb) (simp_all add: w' objectURLs_fields)
qed (use assms in \<open>auto simp: objectURLs_fields split: if_splits option.splits\<close>)

section \<open>The claims\<close>

subsection \<open>C1: the minimum duration\<close>



subsection \<open>C2: which files are accepted\<close>

text \<open>
  C2 does not hold as stated: \<open>handleFileChange\<close> checks nothing, so the picker event
  accepts \<open>clip.txt\<close> of type \<open>text/plain\<close>.
\<close>

theorem picker_accepts_text_file:
  "type clip \<notin> {''audio/mpeg'', ''audio/wav'', ''audio/ogg''} \<and>
   \<not> endsWith (name clip) ''.mp3'' \<and> \<not> endsWith (name clip) ''.wav'' \<and>
   \<not> endsWith (name clip) ''.ogg'' \<and> \<not> endsWith (name clip) ''.mpeg'' \<and>
   selectedFile (ui (initial 0)) = None \<and>
   selectedFile (ui (handleFileChange (Some clip) (initial 0))) = Some clip"
  by (simp add: clip_def endsWith_def run_defs)

text \<open>
  C2, amended. A dropped file whose type is \<open>audio/mpeg\<close>, \<open>audio/wav\<close> or
  \<open>audio/ogg\<close>, or whose name ends in \<open>.mp3\<close> or \<open>.wav\<close>, becomes the selected file
  and \<open>processingComplete\<close> is cleared; nothing else changes. A dropped file whose type
  is none of the three and whose name ends in none of \<open>.mp3\<close>, \<open>.wav\<close>, \<open>.ogg\<close>,
  \<open>.mpeg\<close> is ignored: the world stays as it was, and nothing is reported. The handler
  of the picker accepts whatever file the event carries.
\<close>

theorem drop_and_picker_selection:
  "(type f \<in> {''audio/mpeg'', ''audio/wav'', ''audio/ogg''} \<or>
      endsWith (name f) ''.mp3'' \<or> endsWith (name f) ''.wav'' \<longrightarrow>
      handleDrop (Some f) w = setProcessingComplete False (setSelectedFile (Some f) w)) \<and>
   (type f \<notin> {''audio/mpeg'', ''audio/wav'', ''audio/ogg''} \<and>
      \<not> endsWith (name f) ''.mp3'' \<and> \<not> endsWith (name f) ''.wav'' \<and>
      \<not> endsWith (name f) ''.ogg'' \<and> \<not> endsWith (name f) ''.mpeg'' \<longrightarrow>
      handleDrop (Some f) w = w) \<and>
   handleFileChange (Some f) w =
     setPdfUrl None (setProcessingComplete False (setSelectedFile (Some f) w))"
  by (simp add: handleDrop_def handleFileChange_def dropAccepts_def Let_def)

theorem drop_and_picker_selection_witness:
  "type song \<in> {''audio/mpeg'', ''audio/wav'', ''audio/ogg''} \<and>
   handleDrop (Some song) (initial 0) =
     setProcessingComplete False (setSelectedFile (Some song) (initial 0)) \<and>
   type clip \<notin> {''audio/mpeg'', ''audio/wav'', ''audio/ogg''} \<and>
   \<not> endsWith (name clip) ''.mp3'' \<and> \<not> endsWith (name clip) ''.wav'' \<and>
   \<not> endsWith (name clip) ''.ogg'' \<and> \<not> endsWith (name clip) ''.mpeg'' \<and>
   handleDrop (Some clip) (initial 0) = initial 0"
  using drop_and_picker_selection [of song "initial 0"]
    drop_and_picker_selection [of clip "initial 0"]
  by (simp add: song_def clip_def endsWith_def)

subsection \<open>C3: the progress value\<close>




subsection \<open>C4: a failed request\<close>




subsection \<open>C5: the object URL of a result\<close>

text \<open>
  C5 does not hold as stated: no handler revokes an object URL. After scenario A the
  result has the URL 0; after the button New Conversion, and after the choice of a new
  file, that URL is still in the store of the browser.
\<close>

theorem object_url_stays_live:
  "pdfUrl (ui completed) = Some 0 \<and> objectURLs completed = [(0, ''%PDF'')] \<and>
   pdfUrl (ui (newConversion completed)) = None \<and>
   objectURLs (newConversion completed) = [(0, ''%PDF'')] \<and>
   pdfUrl (ui (handleFileChange (Some riff) completed)) = None \<and>
   objectURLs (handleFileChange (Some riff) completed) = [(0, ''%PDF'')]"
  by (simp add: completed_eq newConversion_def handleFileChange_def setter_defs Let_def)

text \<open>
  C5, amended. The choice of a new file in the picker and the button New Conversion
  clear \<open>pdfUrl\<close> and leave the store of object URLs as it is; no step of the event loop
  takes an object URL out of the store.
\<close>

theorem result_cleared_not_revoked:
  "pdfUrl (ui (handleFileChange (Some f) w)) = None \<and>
   objectURLs (handleFileChange (Some f) w) = objectURLs w \<and>
   pdfUrl (ui (newConversion w)) = None \<and>
   objectURLs (newConversion w) = objectURLs w \<and>
   (step e w = Some w' \<longrightarrow> prefix (objectURLs w) (objectURLs w'))"
  by (simp add: handleFileChange_def newConversion_def setter_defs Let_def objectURLs_step)

theorem result_cleared_not_revoked_witness:
  "step (Fire 3) finalizing = Some completed \<and>
   prefix (objectURLs finalizing) (objectURLs completed) \<and>
   pdfUrl (ui finalizing) = Some 0 \<and>
   pdfUrl (ui (newConversion finalizing)) = None \<and>
   objectURLs (newConversion finalizing) = objectURLs finalizing"
proof -
  have c: "step (Fire 3) finalizing = Some completed"
    by (simp add: completed_eq finalizing_eq run_defs)
  have u: "pdfUrl (ui finalizing) = Some 0"
    by (simp add: finalizing_eq)
  from result_cleared_not_revoked [of riff finalizing "Fire 3" completed] c u
  show ?thesis by blast
qed

subsection \<open>C6: the message of a failed request\<close>

text \<open>
  C6 does not hold as stated: in scenario C the body of the response is
  \<open>decode error\<close>, and the one message shown to the user does not contain it.
\<close>

theorem alert_omits_body_text:
  "effects refused =
     [Post riff, ConsoleError ''Processing failed: decode error'',
      Alert ''Error processing file. Please check backend connection.''] \<and>
   \<not> sublist ''decode error'' ''Error processing file. Please check backend connection.''"
proof -
  have "\<not> sublist ''decode error'' ''Error processing file. Please check backend connection.''"
    by code_simp
  then show ?thesis
    by (simp add: refused_eq)
qed

text \<open>
  C6, amended. When the endpoint responds with a status that is not 2xx and the body
  text can be read, the request fails with an error whose message is
  \<open>Processing failed: \<close> followed by the body text. That error is written to the
  console; the message shown to the user is the fixed text \<open>Error processing file.
  Please check backend connection.\<close>
\<close>

theorem failure_message_to_console:
  assumes "map_of (requests w) k = Some (t, i)" and "\<not> ok r" and "body r = Resolved errorText"
  shows "\<exists>w'. step (Settle k (Resolved r)) w = Some w' \<and>
    effects w' = effects w @
      [ConsoleError (''Processing failed: '' @ errorText),
       Alert ''Error processing file. Please check backend connection.'']"
  using assms by (simp add: resume_def catch_def emit_def setter_defs clearInterval_def Let_def)

theorem failure_message_to_console_witness:
  "map_of (requests requested) 1 = Some (0, 0) \<and>
   \<not> ok \<lparr>status = 500, body = Resolved ''decode error''\<rparr> \<and>
   body \<lparr>status = 500, body = Resolved ''decode error''\<rparr> = Resolved ''decode error'' \<and>
   (\<exists>w'. step (Settle 1 (Resolved \<lparr>status = 500, body = Resolved ''decode error''\<rparr>))
        requested = Some w' \<and>
      effects w' = effects requested @
        [ConsoleError (''Processing failed: '' @ ''decode error''),
         Alert ''Error processing file. Please check backend connection.''])"
proof -
  have m: "map_of (requests requested) 1 = Some (0, 0)"
    by (simp add: requested_eq)
  have o: "\<not> ok \<lparr>status = 500, body = Resolved ''decode error''\<rparr>"
    by (simp add: ok_def)
  have b: "body \<lparr>status = 500, body = Resolved ''decode error''\<rparr> = Resolved ''decode error''"
    by simp
  from failure_message_to_console [OF m o b] m o b show ?thesis by blast
qed

subsection \<open>C7: the download\<close>

text \<open>
  C7. The code does not do what the claim says when no result is held. After scenario A
  the button New Conversion clears \<open>pdfUrl\<close>; the result panel is then exiting, and its
  download button still holds the \<open>handleDownload\<close> of its last render, which read the
  URL 0. A click on it saves that URL as \<open>sheet_music.pdf\<close> and alerts nothing.
\<close>

theorem stale_download_saves_dismissed_result:
  "pdfUrl (ui dismissed) = None \<and> workflowState (ui dismissed) = Idle \<and>
   step ClickDownload dismissed = Some downloaded \<and>
   effects downloaded = effects dismissed @ [SaveAs ''sheet_music.pdf'' 0] \<and>
   ui downloaded = ui dismissed"
  by (simp add: dismissed_eq downloaded_eq workflowState_def run_defs)

subsection \<open>C8: the simulator never reaches 100\<close>



subsection \<open>C9: the interval is cleared before 100 is written\<close>



subsection \<open>C10: starting without a file\<close>

text \<open>
  C10. The code does not do what the claim says. When the selected file is removed
  before any conversion, the file panel is exiting, and its start button still holds
  the \<open>handleStartProcess\<close> of its last render, which captured \<open>song.mp3\<close>. A click
  on it, with no file selected, passes the test of line 142, sets \<open>isProcessing\<close>,
  registers the interval and posts \<open>song.mp3\<close>.
\<close>

theorem stale_start_posts_removed_file:
  "selectedFile (ui removed) = None \<and> workflowState (ui removed) = Idle \<and>
   step ClickStart removed = Some restarted \<and>
   isProcessing (ui restarted) \<and> intervals restarted = [0] \<and>
   requests restarted = [(1, 0, 0)] \<and> effects restarted = effects removed @ [Post song]"
  by (simp add: removed_eq restarted_eq workflowState_def run_defs)

end
